theory Spec2Isabelle
  imports Complex_Main
begin

section \<open>Values thrown and caught\<close>

text \<open>
  A rejected promise carries a thrown value. The module throws its own
  \<^verbatim>\<open>LockNotAcquiredError\<close> (an \<^verbatim>\<open>Error\<close> subclass whose \<^verbatim>\<open>name\<close> is
  \<^verbatim>\<open>'LockNotAcquiredError'\<close>) and rethrows what the S3 client or a callback threw:
  another \<^verbatim>\<open>Error\<close> instance with its \<^verbatim>\<open>name\<close> and \<^verbatim>\<open>message\<close>, or a value that
  is no \<^verbatim>\<open>Error\<close> at all.
\<close>

datatype thrown =
    LockNotAcquiredError string
  | ErrorObject string string
  | NonError string

text \<open>\<^verbatim>\<open>new LockNotAcquiredError()\<close> with the constructor's default message.\<close>

definition lockNotAcquired :: thrown where
  "lockNotAcquired = LockNotAcquiredError ''Failed to acquire lock''"

text \<open>
  The test of every \<^verbatim>\<open>catch\<close> block of the module:
  \<^verbatim>\<open>error instanceof Error && 'name' in error && error.name === 'PreconditionFailed'\<close>.
\<close>

fun isPreconditionFailed :: "thrown \<Rightarrow> bool" where
  "isPreconditionFailed (ErrorObject name message) = (name = ''PreconditionFailed'')"
| "isPreconditionFailed (LockNotAcquiredError message) = False"
| "isPreconditionFailed (NonError v) = False"

section \<open>The S3 client\<close>

text \<open>
  \<^verbatim>\<open>GetObjectCommand({Bucket, Key})\<close> and \<^verbatim>\<open>PutObjectCommand({Bucket, Key, IfMatch,
  IfNoneMatch, Body})\<close>; a header the source leaves out, or sets to \<^verbatim>\<open>undefined\<close>, is
  \<open>None\<close>. Of the outputs the module reads \<^verbatim>\<open>Body\<close> (already transformed to a
  string) and \<^verbatim>\<open>ETag\<close>, both optional in the SDK's types.
\<close>

datatype get_object_command = GetObjectCommand string string

record put_object_command =
  Bucket :: string
  Key :: string
  IfMatch :: "string option"
  IfNoneMatch :: "string option"
  Body :: string

datatype get_object_output = GetObjectCommandOutput (body_of: "string option") (etag_of: "string option")

datatype put_object_output = PutObjectCommandOutput (put_etag_of: "string option")

text \<open>
  \<^verbatim>\<open>s3Client.send\<close> is the collaborator: for each kind of command a function of the
  state behind the client (the bucket, the network) that answers with an output or a
  thrown value.
\<close>

record 'c s3_client =
  get_object :: "get_object_command \<Rightarrow> 'c \<Rightarrow> (thrown + get_object_output) \<times> 'c"
  put_object :: "put_object_command \<Rightarrow> 'c \<Rightarrow> (thrown + put_object_output) \<times> 'c"

text \<open>
  What a call does besides returning: the commands it hands to \<^verbatim>\<open>s3Client.send\<close>,
  each with its answer, and the delays it waits with \<^verbatim>\<open>setTimeout\<close>, in order. The
  \<^verbatim>\<open>console.log\<close> lines are left out.
\<close>

datatype event =
    Get get_object_command "thrown + get_object_output"
  | Put put_object_command "thrown + put_object_output"
  | Timeout int

record 'c world =
  backend :: 'c
  calls :: "event list"

definition send_get ::
  "'c s3_client \<Rightarrow> get_object_command \<Rightarrow> 'c world \<Rightarrow> (thrown + get_object_output) \<times> 'c world" where
  "send_get cl cmd w =
     (case get_object cl cmd (backend w) of
        (r, c) \<Rightarrow> (r, w\<lparr>backend := c, calls := calls w @ [Get cmd r]\<rparr>))"

definition send_put ::
  "'c s3_client \<Rightarrow> put_object_command \<Rightarrow> 'c world \<Rightarrow> (thrown + put_object_output) \<times> 'c world" where
  "send_put cl cmd w =
     (case put_object cl cmd (backend w) of
        (r, c) \<Rightarrow> (r, w\<lparr>backend := c, calls := calls w @ [Put cmd r]\<rparr>))"

text \<open>\<^verbatim>\<open>await new Promise(r => setTimeout(r, timeout))\<close>\<close>

definition sleep :: "int \<Rightarrow> 'c world \<Rightarrow> 'c world" where
  "sleep ms w = w\<lparr>calls := calls w @ [Timeout ms]\<rparr>"

definition isGet :: "event \<Rightarrow> bool" where
  "isGet e = (case e of Get cmd r \<Rightarrow> True | _ \<Rightarrow> False)"

definition isPut :: "event \<Rightarrow> bool" where
  "isPut e = (case e of Put cmd r \<Rightarrow> True | _ \<Rightarrow> False)"

section \<open>Lock bodies\<close>

text \<open>
  The values \<^verbatim>\<open>JSON.parse\<close> returns. A number is a double: a finite one is kept by
  its exact value, and an overflowing literal gives an infinity. An object is the list
  of its own properties, each key once.
\<close>

datatype js_number = Finite rat | Infinity | NegInfinity

datatype json =
    JNull
  | JBool bool
  | JNumber js_number
  | JString string
  | JArray "json list"
  | JObject "(string \<times> json) list"

text \<open>
  \<^verbatim>\<open>v?.locked\<close>: \<open>None\<close> is \<^verbatim>\<open>undefined\<close>. Optional chaining stops at \<^verbatim>\<open>null\<close>;
  booleans, numbers, strings and arrays have no property of that name.
\<close>

fun locked_of :: "json \<Rightarrow> json option" where
  "locked_of (JObject props) = map_of props ''locked''"
| "locked_of v = None"

text \<open>The truthiness that \<^verbatim>\<open>!\<close> negates.\<close>

fun toBoolean :: "json option \<Rightarrow> bool" where
  "toBoolean None = False"
| "toBoolean (Some JNull) = False"
| "toBoolean (Some (JBool b)) = b"
| "toBoolean (Some (JNumber n)) = (n \<noteq> Finite 0)"
| "toBoolean (Some (JString s)) = (s \<noteq> [])"
| "toBoolean (Some (JArray vs)) = True"
| "toBoolean (Some (JObject props)) = True"

text \<open>
  \<^verbatim>\<open>!JSON.parse(await props.Body?.transformToString() ?? "{}")?.locked\<close>, with
  \<^verbatim>\<open>JSON.parse\<close> (a built-in of the language, which throws a \<^verbatim>\<open>SyntaxError\<close> on a
  text that is not JSON) as the parameter \<open>parse\<close>.
\<close>

definition defaultConditional ::
  "(string \<Rightarrow> thrown + json) \<Rightarrow> get_object_output \<Rightarrow> thrown + bool" where
  "defaultConditional parse props =
     (case parse (case body_of props of None \<Rightarrow> ''{}'' | Some text \<Rightarrow> text) of
        Inl e \<Rightarrow> Inl e
      | Inr v \<Rightarrow> Inr (\<not> toBoolean (locked_of v)))"

text \<open>\<^verbatim>\<open>JSON.stringify({ locked: b })\<close>\<close>

definition stringify_locked :: "bool \<Rightarrow> string" where
  \<open>stringify_locked b = (if b then ''{"locked":true}'' else ''{"locked":false}'')\<close>

definition defaultGenerateBody :: "unit \<Rightarrow> thrown + string" where
  "defaultGenerateBody u = Inr (stringify_locked True)"

section \<open>The lock\<close>

text \<open>
  The argument of \<^verbatim>\<open>acquireLock\<close>. \<^verbatim>\<open>generateBody\<close>, \<^verbatim>\<open>maxAttempts\<close> and
  \<^verbatim>\<open>timeout\<close> are read with \<^verbatim>\<open>??\<close>, which does not tell a missing property from an
  undefined one. \<^verbatim>\<open>conditional\<close> is also tested with \<^verbatim>\<open>in\<close>, which does. The
  callbacks are asynchronous functions: they return a value or reject.
\<close>

datatype 'a property = Absent | Undefined | Value 'a

record acquire_props =
  bucket :: string
  key :: string
  generateBody :: "(unit \<Rightarrow> thrown + string) option"
  conditional :: "(get_object_output \<Rightarrow> thrown + bool) property"
  maxAttempts :: "int option"
  timeout :: "int option"

fun isCompareAndSwapLock :: "acquire_props \<Rightarrow> bool" where
  "isCompareAndSwapLock lock = (case conditional lock of Absent \<Rightarrow> False | _ \<Rightarrow> True)"

text \<open>
  The object \<^verbatim>\<open>acquireLock\<close> returns has one method, \<^verbatim>\<open>release\<close>, a closure over
  \<^verbatim>\<open>bucket\<close>, \<^verbatim>\<open>key\<close> and \<^verbatim>\<open>resp.ETag\<close> of the write that took the lock.
\<close>

record lock_handle =
  lock_bucket :: string
  lock_key :: string
  lock_etag :: "string option"

definition release ::
  "'c s3_client \<Rightarrow> lock_handle \<Rightarrow> string \<Rightarrow> 'c world \<Rightarrow> (thrown + unit) \<times> 'c world" where
  "release cl h newBody w =
     (case send_put cl \<lparr>Bucket = lock_bucket h, Key = lock_key h, IfMatch = lock_etag h,
                        IfNoneMatch = None, Body = newBody\<rparr> w of
        (Inl e, w') \<Rightarrow> (Inl e, w')
      | (Inr resp, w') \<Rightarrow> (Inr (), w'))"

definition initializeLockFile ::
  "'c s3_client \<Rightarrow> string \<Rightarrow> string \<Rightarrow> 'c world \<Rightarrow> (thrown + unit) \<times> 'c world" where
  "initializeLockFile cl b k w =
     (case send_put cl \<lparr>Bucket = b, Key = k, IfMatch = None, IfNoneMatch = None,
                        Body = stringify_locked False\<rparr> w of
        (Inl e, w') \<Rightarrow> (if isPreconditionFailed e then (Inl lockNotAcquired, w') else (Inl e, w'))
      | (Inr resp, w') \<Rightarrow> (Inr (), w'))"

text \<open>
  One pass through the body of the \<^verbatim>\<open>while\<close> loop: it ends in \<^verbatim>\<open>continue\<close>, in
  \<^verbatim>\<open>return\<close> or in a \<^verbatim>\<open>throw\<close>. The read and the predicate are outside the
  \<^verbatim>\<open>try\<close> block; \<^verbatim>\<open>generateBody\<close> and the write are inside it.
\<close>

datatype outcome = Continue | Finish "thrown + lock_handle"

definition cas_catch :: "int \<Rightarrow> thrown \<Rightarrow> 'c world \<Rightarrow> outcome \<times> 'c world" where
  "cas_catch ms e w =
     (if isPreconditionFailed e then (Continue, sleep ms w) else (Finish (Inl e), w))"

definition cas_attempt ::
  "'c s3_client \<Rightarrow> (get_object_output \<Rightarrow> thrown + bool) \<Rightarrow> (unit \<Rightarrow> thrown + string) \<Rightarrow> int
     \<Rightarrow> string \<Rightarrow> string \<Rightarrow> 'c world \<Rightarrow> outcome \<times> 'c world" where
  "cas_attempt cl cond gen ms b k w =
     (case send_get cl (GetObjectCommand b k) w of
        (Inl e, w1) \<Rightarrow> (Finish (Inl e), w1)
      | (Inr getLatestETag, w1) \<Rightarrow>
          (case cond getLatestETag of
             Inl e \<Rightarrow> (Finish (Inl e), w1)
           | Inr ok \<Rightarrow>
               if \<not> ok then (Continue, sleep ms w1)
               else
                 (case gen () of
                    Inl e \<Rightarrow> cas_catch ms e w1
                  | Inr body \<Rightarrow>
                      (case send_put cl \<lparr>Bucket = b, Key = k, IfMatch = etag_of getLatestETag,
                                         IfNoneMatch = None, Body = body\<rparr> w1 of
                         (Inl e, w2) \<Rightarrow> cas_catch ms e w2
                       | (Inr resp, w2) \<Rightarrow>
                           (Finish (Inr \<lparr>lock_bucket = b, lock_key = k,
                                          lock_etag = put_etag_of resp\<rparr>), w2)))))"

text \<open>
  \<^verbatim>\<open>while (attempt-- > 0) { ... }  throw new LockNotAcquiredError()\<close>; the counter
  is a count of attempts, an integer.
\<close>

function cas_loop ::
  "'c s3_client \<Rightarrow> (get_object_output \<Rightarrow> thrown + bool) \<Rightarrow> (unit \<Rightarrow> thrown + string) \<Rightarrow> int
     \<Rightarrow> string \<Rightarrow> string \<Rightarrow> int \<Rightarrow> 'c world \<Rightarrow> (thrown + lock_handle) \<times> 'c world" where
  "cas_loop cl cond gen ms b k attempt w =
     (if attempt > 0 then
        (case cas_attempt cl cond gen ms b k w of
           (Continue, w') \<Rightarrow> cas_loop cl cond gen ms b k (attempt - 1) w'
         | (Finish r, w') \<Rightarrow> (r, w'))
      else (Inl lockNotAcquired, w))"
  by pat_completeness auto
termination
  by (relation "measure (\<lambda>(cl, cond, gen, ms, b, k, attempt, w). nat attempt)") auto

definition existence_lock ::
  "'c s3_client \<Rightarrow> (unit \<Rightarrow> thrown + string) \<Rightarrow> string \<Rightarrow> string \<Rightarrow> 'c world
     \<Rightarrow> (thrown + lock_handle) \<times> 'c world" where
  "existence_lock cl gen b k w =
     (case gen () of
        Inl e \<Rightarrow> (if isPreconditionFailed e then (Inl lockNotAcquired, w) else (Inl e, w))
      | Inr body \<Rightarrow>
          (case send_put cl \<lparr>Bucket = b, Key = k, IfMatch = None, IfNoneMatch = Some ''*'',
                             Body = body\<rparr> w of
             (Inl e, w') \<Rightarrow>
               (if isPreconditionFailed e then (Inl lockNotAcquired, w') else (Inl e, w'))
           | (Inr resp, w') \<Rightarrow>
               (Inr \<lparr>lock_bucket = b, lock_key = k, lock_etag = put_etag_of resp\<rparr>, w')))"

text \<open>
  The four properties \<^verbatim>\<open>acquireLock\<close> reads with a default:
  \<^verbatim>\<open>props.generateBody ?? defaultGenerateBody\<close>, \<^verbatim>\<open>props.maxAttempts ?? 5\<close>,
  \<^verbatim>\<open>props.timeout ?? 5000\<close> and \<^verbatim>\<open>props.conditional ?? defaultConditional\<close>.
\<close>

definition generateBody_of :: "acquire_props \<Rightarrow> unit \<Rightarrow> thrown + string" where
  "generateBody_of props = (case generateBody props of None \<Rightarrow> defaultGenerateBody | Some g \<Rightarrow> g)"

definition attempt_of :: "acquire_props \<Rightarrow> int" where
  "attempt_of props = (case maxAttempts props of None \<Rightarrow> 5 | Some n \<Rightarrow> n)"

definition timeout_of :: "acquire_props \<Rightarrow> int" where
  "timeout_of props = (case timeout props of None \<Rightarrow> 5000 | Some ms \<Rightarrow> ms)"

definition conditional_of ::
  "(string \<Rightarrow> thrown + json) \<Rightarrow> acquire_props \<Rightarrow> get_object_output \<Rightarrow> thrown + bool" where
  "conditional_of parse props =
     (case conditional props of Value c \<Rightarrow> c | _ \<Rightarrow> defaultConditional parse)"

definition acquireLock ::
  "(string \<Rightarrow> thrown + json) \<Rightarrow> 'c s3_client \<Rightarrow> acquire_props \<Rightarrow> 'c world
     \<Rightarrow> (thrown + lock_handle) \<times> 'c world" where
  "acquireLock parse cl props w =
     (if isCompareAndSwapLock props then
        cas_loop cl (conditional_of parse props) (generateBody_of props) (timeout_of props)
          (bucket props) (key props) (attempt_of props) w
      else existence_lock cl (generateBody_of props) (bucket props) (key props) w)"

section \<open>The object store\<close>

text \<open>
  Modelled from the spec: the object store behind the client is a service outside the
  repository. Its contract is the one of sections 3 and 6 of the specification and of the
  README: a read returns the body and the version tag of the object or fails when there
  is none; a write with \<^verbatim>\<open>If-None-Match\<close> is rejected with \<^verbatim>\<open>PreconditionFailed\<close>
  when the key holds an object, one with \<^verbatim>\<open>If-Match\<close> when the key's version tag is
  not the given one; every write that succeeds gives the object a version tag that no
  earlier write got. This store has no failure of its own (network, permissions).
\<close>

record s3_store =
  objects :: "string \<times> string \<Rightarrow> (string \<times> string) option"
  next_tag :: nat

definition etag :: "nat \<Rightarrow> string" where
  "etag n = CHR ''v'' # replicate n (CHR ''i'')"

definition preconditionFailed :: thrown where
  "preconditionFailed =
     ErrorObject ''PreconditionFailed'' ''At least one of the pre-conditions you specified did not hold''"

definition noSuchKey :: thrown where
  "noSuchKey = ErrorObject ''NoSuchKey'' ''The specified key does not exist.''"

fun s3_get :: "get_object_command \<Rightarrow> s3_store \<Rightarrow> (thrown + get_object_output) \<times> s3_store" where
  "s3_get (GetObjectCommand b k) s =
     (case objects s (b, k) of
        None \<Rightarrow> (Inl noSuchKey, s)
      | Some (body, t) \<Rightarrow> (Inr (GetObjectCommandOutput (Some body) (Some t)), s))"

definition precondition_holds :: "put_object_command \<Rightarrow> (string \<times> string) option \<Rightarrow> bool" where
  "precondition_holds cmd cur =
     ((case IfNoneMatch cmd of None \<Rightarrow> True | Some v \<Rightarrow> cur = None) \<and>
      (case IfMatch cmd of None \<Rightarrow> True
       | Some t \<Rightarrow> (case cur of None \<Rightarrow> False | Some (body, t') \<Rightarrow> t' = t)))"

definition s3_put :: "put_object_command \<Rightarrow> s3_store \<Rightarrow> (thrown + put_object_output) \<times> s3_store" where
  "s3_put cmd s =
     (if precondition_holds cmd (objects s (Bucket cmd, Key cmd)) then
        (Inr (PutObjectCommandOutput (Some (etag (next_tag s)))),
         s\<lparr>objects := (objects s)((Bucket cmd, Key cmd) \<mapsto> (Body cmd, etag (next_tag s))),
           next_tag := Suc (next_tag s)\<rparr>)
      else (Inl preconditionFailed, s))"

definition s3 :: "s3_store s3_client" where
  "s3 = \<lparr>get_object = s3_get, put_object = s3_put\<rparr>"

text \<open>The same bucket for a caller who may read it and may not write to it.\<close>

definition s3_read_only :: "thrown \<Rightarrow> s3_store s3_client" where
  "s3_read_only denied = \<lparr>get_object = s3_get, put_object = (\<lambda>cmd s. (Inl denied, s))\<rparr>"

definition accessDenied :: thrown where
  "accessDenied = ErrorObject ''AccessDenied'' ''Access Denied''"

text \<open>Requests of other principals reach the store without passing through this client.\<close>

datatype request = GetRequest get_object_command | PutRequest put_object_command

fun serve :: "request list \<Rightarrow> s3_store \<Rightarrow> s3_store" where
  "serve [] s = s"
| "serve (GetRequest cmd # rs) s = serve rs (snd (s3_get cmd s))"
| "serve (PutRequest cmd # rs) s = serve rs (snd (s3_put cmd s))"

text \<open>
  The same bucket with a rival whose write reaches the store between a read of this
  client and the write that follows it.
\<close>

definition s3_raced :: "put_object_command \<Rightarrow> s3_store s3_client" where
  "s3_raced rival =
     \<lparr>get_object = s3_get, put_object = (\<lambda>cmd s. s3_put cmd (serve [PutRequest rival] s))\<rparr>"

text \<open>Among the requests served from \<open>s\<close> on, a write to the key \<open>(b, k)\<close> succeeds.\<close>

fun wrote_to :: "string \<Rightarrow> string \<Rightarrow> request list \<Rightarrow> s3_store \<Rightarrow> bool" where
  "wrote_to b k [] s = False"
| "wrote_to b k (GetRequest cmd # rs) s = wrote_to b k rs (snd (s3_get cmd s))"
| "wrote_to b k (PutRequest cmd # rs) s =
     (case s3_put cmd s of
        (Inl e, s') \<Rightarrow> wrote_to b k rs s'
      | (Inr resp, s') \<Rightarrow> (Bucket cmd = b \<and> Key cmd = k) \<or> wrote_to b k rs s')"

text \<open>
  The key \<open>bk\<close> holds an object whose version tag was given by write number \<open>n\<close> of
  the store or by a later one.
\<close>

definition newer :: "nat \<Rightarrow> s3_store \<Rightarrow> string \<times> string \<Rightarrow> bool" where
  "newer n s bk = (\<exists>body m. objects s bk = Some (body, etag m) \<and> n \<le> m \<and> m < next_tag s)"

text \<open>
  From \<open>w\<close> to \<open>w1\<close> the last command sent was a write to \<open>b/k\<close> that the store
  accepted, and \<open>h\<close> is the handle made from its answer.
\<close>

definition took ::
  "'c s3_client \<Rightarrow> string \<Rightarrow> string \<Rightarrow> 'c world \<Rightarrow> lock_handle \<Rightarrow> 'c world \<Rightarrow> bool" where
  "took cl b k w h w1 =
     (\<exists>evs cmd resp c0. calls w1 = calls w @ evs @ [Put cmd (Inr resp)]
        \<and> put_object cl cmd c0 = (Inr resp, backend w1)
        \<and> Bucket cmd = b \<and> Key cmd = k
        \<and> h = \<lparr>lock_bucket = b, lock_key = k, lock_etag = put_etag_of resp\<rparr>)"

text \<open>
  Two calls of \<^verbatim>\<open>acquireLock\<close> in flight at once. A call without a predicate hands one
  command to the store, which serves the commands it receives one at a time, so the two
  calls interleave in two ways: by which of the two writes the store serves first.
\<close>

datatype order = FirstWrites | SecondWrites

definition concurrently ::
  "(string \<Rightarrow> thrown + json) \<Rightarrow> 'c s3_client \<Rightarrow> order \<Rightarrow> acquire_props \<Rightarrow> acquire_props
     \<Rightarrow> 'c world \<Rightarrow> (thrown + lock_handle) \<times> (thrown + lock_handle) \<times> 'c world" where
  "concurrently parse cl ord p1 p2 w =
     (case ord of
        FirstWrites \<Rightarrow>
          (case acquireLock parse cl p1 w of (r1, w1) \<Rightarrow>
             (case acquireLock parse cl p2 w1 of (r2, w2) \<Rightarrow> (r1, r2, w2)))
      | SecondWrites \<Rightarrow>
          (case acquireLock parse cl p2 w of (r2, w1) \<Rightarrow>
             (case acquireLock parse cl p1 w1 of (r1, w2) \<Rightarrow> (r1, r2, w2))))"

text \<open>
  \<^verbatim>\<open>JSON.parse\<close> on the three texts of the examples below, which give it no other
  text.
\<close>

definition parse_example :: "string \<Rightarrow> thrown + json" where
  "parse_example text =
     (if text = ''{}'' then Inr (JObject [])
      else if text = stringify_locked False then Inr (JObject [(''locked'', JBool False)])
      else if text = stringify_locked True then Inr (JObject [(''locked'', JBool True)])
      else Inl (ErrorObject ''SyntaxError'' ''Unexpected token''))"

definition empty_store :: s3_store where
  "empty_store = \<lparr>objects = Map.empty, next_tag = 0\<rparr>"

definition start :: "s3_store \<Rightarrow> s3_store world" where
  "start s = \<lparr>backend = s, calls = []\<rparr>"

text \<open>A store whose key \<^verbatim>\<open>b/k\<close> holds a taken lock, and one where it holds a free lock.\<close>

definition held :: s3_store where
  "held = \<lparr>objects = [(''b'', ''k'') \<mapsto> (stringify_locked True, etag 0)], next_tag = 1\<rparr>"

definition free :: s3_store where
  "free = \<lparr>objects = [(''b'', ''k'') \<mapsto> (stringify_locked False, etag 0)], next_tag = 1\<rparr>"

text \<open>
  Arguments for \<^verbatim>\<open>b/k\<close>: without a predicate, and with the property
  \<^verbatim>\<open>conditional\<close> present and undefined.
\<close>

definition props_plain :: acquire_props where
  "props_plain = \<lparr>bucket = ''b'', key = ''k'', generateBody = None, conditional = Absent,
                   maxAttempts = None, timeout = None\<rparr>"

definition props_cas :: "int \<Rightarrow> acquire_props" where
  "props_cas n = \<lparr>bucket = ''b'', key = ''k'', generateBody = None, conditional = Undefined,
                   maxAttempts = Some n, timeout = Some 100\<rparr>"

text \<open>
  What a read of the free lock returns, the write a compare-and-swap acquisition sends
  after it, and the unconditional write of a rival.
\<close>

definition free_output :: get_object_output where
  "free_output = GetObjectCommandOutput (Some (stringify_locked False)) (Some (etag 0))"

definition cas_write :: put_object_command where
  "cas_write = \<lparr>Bucket = ''b'', Key = ''k'', IfMatch = Some (etag 0), IfNoneMatch = None,
                 Body = stringify_locked True\<rparr>"

definition rival_write :: put_object_command where
  "rival_write = \<lparr>Bucket = ''b'', Key = ''k'', IfMatch = None, IfNoneMatch = None,
                   Body = stringify_locked True\<rparr>"

text \<open>
  The arguments of \<open>props_plain\<close> with the default predicate passed by name; the handle,
  the commands and the world of an acquisition of \<^verbatim>\<open>b/k\<close> by creation and of its
  release.
\<close>

definition props_default :: acquire_props where
  "props_default = props_plain\<lparr>conditional := Value (defaultConditional parse_example)\<rparr>"

definition lock_taken :: lock_handle where
  "lock_taken = \<lparr>lock_bucket = ''b'', lock_key = ''k'', lock_etag = Some (etag 0)\<rparr>"

definition existence_write :: put_object_command where
  "existence_write = \<lparr>Bucket = ''b'', Key = ''k'', IfMatch = None, IfNoneMatch = Some ''*'',
                       Body = stringify_locked True\<rparr>"

definition release_write :: put_object_command where
  "release_write = \<lparr>Bucket = ''b'', Key = ''k'', IfMatch = Some (etag 0), IfNoneMatch = None,
                     Body = stringify_locked False\<rparr>"

definition after_acquire :: "s3_store world" where
  "after_acquire =
     \<lparr>backend = held, calls = [Put existence_write (Inr (PutObjectCommandOutput (Some (etag 0))))]\<rparr>"

section \<open>The retry loop\<close>

declare cas_loop.simps [simp del]

lemma cas_loop_done:
  "attempt \<le> 0 \<Longrightarrow> cas_loop cl cond gen ms b k attempt w = (Inl lockNotAcquired, w)"
  by (simp add: cas_loop.simps)

lemma cas_loop_continue:
  "0 < attempt \<Longrightarrow> cas_attempt cl cond gen ms b k w = (Continue, w') \<Longrightarrow>
   cas_loop cl cond gen ms b k attempt w = cas_loop cl cond gen ms b k (attempt - 1) w'"
  by (simp add: cas_loop.simps)

lemma cas_loop_finish:
  "0 < attempt \<Longrightarrow> cas_attempt cl cond gen ms b k w = (Finish r, w') \<Longrightarrow>
   cas_loop cl cond gen ms b k attempt w = (r, w')"
  by (simp add: cas_loop.simps)

lemma cas_attempt_false:
  assumes "get_object cl (GetObjectCommand b k) (backend w) = (Inr out, c)"
    and "cond out = Inr False"
  shows "cas_attempt cl cond gen ms b k w =
     (Continue, w\<lparr>backend := c, calls := calls w @ [Get (GetObjectCommand b k) (Inr out), Timeout ms]\<rparr>)"
  using assms by (simp add: cas_attempt_def send_get_def sleep_def)

lemma cas_loop_never:
  assumes reads: "\<forall>c. I c \<longrightarrow> (\<exists>out c'. get_object cl (GetObjectCommand b k) c = (Inr out, c')
                     \<and> cond out = Inr False \<and> I c')"
  shows "I (backend w) \<Longrightarrow>
     \<exists>w' evs. cas_loop cl cond gen ms b k attempt w = (Inl lockNotAcquired, w')
       \<and> calls w' = calls w @ evs \<and> length (filter isGet evs) = nat attempt \<and> filter isPut evs = []"
proof (induction "nat attempt" arbitrary: attempt w)
  case 0
  then have "attempt \<le> 0" by simp
  then show ?case by (simp add: cas_loop_done)
next
  case (Suc n)
  then have pos: "0 < attempt" and n: "n = nat (attempt - 1)" by simp_all
  from reads Suc.prems obtain out c where
    get: "get_object cl (GetObjectCommand b k) (backend w) = (Inr out, c)"
    and no: "cond out = Inr False" and inv: "I c"
    by blast
  define w1 where
    "w1 = w\<lparr>backend := c, calls := calls w @ [Get (GetObjectCommand b k) (Inr out), Timeout ms]\<rparr>"
  have step: "cas_loop cl cond gen ms b k attempt w = cas_loop cl cond gen ms b k (attempt - 1) w1"
    unfolding w1_def using pos get no by (simp add: cas_loop_continue cas_attempt_false)
  have "I (backend w1)" using inv by (simp add: w1_def)
  from Suc.hyps(1) [OF n this] obtain w' evs where
    rest: "cas_loop cl cond gen ms b k (attempt - 1) w1 = (Inl lockNotAcquired, w')"
      "calls w' = calls w1 @ evs" "length (filter isGet evs) = nat (attempt - 1)" "filter isPut evs = []"
    by blast
  let ?evs = "[Get (GetObjectCommand b k) (Inr out), Timeout ms] @ evs"
  have "calls w' = calls w @ ?evs" using rest(2) by (simp add: w1_def)
  moreover have "length (filter isGet ?evs) = nat attempt"
    using rest(3) pos by (simp add: isGet_def)
  moreover have "filter isPut ?evs = []" using rest(4) by (simp add: isPut_def)
  ultimately show ?case using step rest(1) by metis
qed

lemma cas_attempt_read_error:
  assumes "get_object cl (GetObjectCommand b k) (backend w) = (Inl e, c)"
  shows "cas_attempt cl cond gen ms b k w =
     (Finish (Inl e), w\<lparr>backend := c, calls := calls w @ [Get (GetObjectCommand b k) (Inl e)]\<rparr>)"
  using assms by (simp add: cas_attempt_def send_get_def)

lemma cas_attempt_write_error:
  assumes "get_object cl (GetObjectCommand b k) (backend w) = (Inr out, c1)"
    and "cond out = Inr True" and "gen () = Inr body"
    and "put_object cl \<lparr>Bucket = b, Key = k, IfMatch = etag_of out, IfNoneMatch = None, Body = body\<rparr> c1
           = (Inl e, c2)"
  shows "cas_attempt cl cond gen ms b k w =
     cas_catch ms e (w\<lparr>backend := c2, calls := calls w @ [Get (GetObjectCommand b k) (Inr out),
        Put \<lparr>Bucket = b, Key = k, IfMatch = etag_of out, IfNoneMatch = None, Body = body\<rparr> (Inl e)]\<rparr>)"
  using assms by (simp add: cas_attempt_def send_get_def send_put_def)

lemma cas_attempt_write_ok:
  assumes "get_object cl (GetObjectCommand b k) (backend w) = (Inr out, c1)"
    and "cond out = Inr True" and "gen () = Inr body"
    and "put_object cl \<lparr>Bucket = b, Key = k, IfMatch = etag_of out, IfNoneMatch = None, Body = body\<rparr> c1
           = (Inr resp, c2)"
  shows "cas_attempt cl cond gen ms b k w =
     (Finish (Inr \<lparr>lock_bucket = b, lock_key = k, lock_etag = put_etag_of resp\<rparr>),
      w\<lparr>backend := c2, calls := calls w @ [Get (GetObjectCommand b k) (Inr out),
        Put \<lparr>Bucket = b, Key = k, IfMatch = etag_of out, IfNoneMatch = None, Body = body\<rparr> (Inr resp)]\<rparr>)"
  using assms by (simp add: cas_attempt_def send_get_def send_put_def)

lemma cas_attempt_calls:
  "\<exists>r evs. calls (snd (cas_attempt cl cond gen ms b k w)) = calls w @ Get (GetObjectCommand b k) r # evs"
  by (auto simp: cas_attempt_def send_get_def send_put_def sleep_def cas_catch_def
      split: prod.split sum.split)

lemma cas_loop_calls:
  "\<exists>evs. calls (snd (cas_loop cl cond gen ms b k attempt w)) = calls w @ evs"
proof (induction "nat attempt" arbitrary: attempt w)
  case 0
  then show ?case by (simp add: cas_loop_done)
next
  case (Suc n)
  then have pos: "0 < attempt" and n: "n = nat (attempt - 1)" by simp_all
  obtain o1 w1 where att: "cas_attempt cl cond gen ms b k w = (o1, w1)" by force
  from cas_attempt_calls [of cl cond gen ms b k w] att
  obtain evs1 where c1: "calls w1 = calls w @ evs1" by auto
  show ?case
  proof (cases o1)
    case Continue
    with att pos have "cas_loop cl cond gen ms b k attempt w = cas_loop cl cond gen ms b k (attempt - 1) w1"
      by (simp add: cas_loop_continue)
    moreover from Suc.hyps(1) [OF n, of w1]
    obtain evs where "calls (snd (cas_loop cl cond gen ms b k (attempt - 1) w1)) = calls w1 @ evs" by blast
    ultimately show ?thesis using c1 by simp
  next
    case (Finish r)
    with att pos have "cas_loop cl cond gen ms b k attempt w = (r, w1)"
      by (simp add: cas_loop_finish)
    then show ?thesis using c1 by simp
  qed
qed

lemma cas_loop_reads_first:
  assumes "0 < attempt"
  shows "\<exists>r evs. calls (snd (cas_loop cl cond gen ms b k attempt w))
           = calls w @ Get (GetObjectCommand b k) r # evs"
proof -
  obtain o1 w1 where att: "cas_attempt cl cond gen ms b k w = (o1, w1)" by force
  from cas_attempt_calls [of cl cond gen ms b k w] att
  obtain r evs1 where c1: "calls w1 = calls w @ Get (GetObjectCommand b k) r # evs1" by auto
  show ?thesis
  proof (cases o1)
    case Continue
    with att assms have "cas_loop cl cond gen ms b k attempt w = cas_loop cl cond gen ms b k (attempt - 1) w1"
      by (simp add: cas_loop_continue)
    moreover from cas_loop_calls [of cl cond gen ms b k "attempt - 1" w1]
    obtain evs where "calls (snd (cas_loop cl cond gen ms b k (attempt - 1) w1)) = calls w1 @ evs" by blast
    ultimately show ?thesis using c1 by simp
  next
    case (Finish r)
    with att assms have "cas_loop cl cond gen ms b k attempt w = (r, w1)"
      by (simp add: cas_loop_finish)
    then show ?thesis using c1 by simp
  qed
qed

lemma free_output_true: "defaultConditional parse_example free_output = Inr True"
  by (simp add: free_output_def defaultConditional_def parse_example_def stringify_locked_def)

lemma held_read:
  "\<forall>c. c = held \<longrightarrow>
     (\<exists>out c'. get_object s3 (GetObjectCommand (bucket (props_cas n)) (key (props_cas n))) c = (Inr out, c')
        \<and> conditional_of parse_example (props_cas n) out = Inr False \<and> c' = held)"
  by (simp add: s3_def held_def props_cas_def conditional_of_def defaultConditional_def
      parse_example_def stringify_locked_def)

section \<open>Handles and version tags\<close>

lemma took_later: "took cl b k w1 h w2 \<Longrightarrow> calls w1 = calls w @ evs \<Longrightarrow> took cl b k w h w2"
  unfolding took_def by (metis append.assoc)

lemma cas_attempt_took:
  assumes "cas_attempt cl cond gen ms b k w = (Finish (Inr h), w1)"
  shows "took cl b k w h w1"
proof -
  obtain r wa where g: "send_get cl (GetObjectCommand b k) w = (r, wa)" by force
  then have ca: "calls wa = calls w @ [Get (GetObjectCommand b k) r]"
    by (auto simp: send_get_def split: prod.splits)
  from assms g obtain out body resp where
    r: "r = Inr out" and "cond out = Inr True" and "gen () = Inr body"
    and p: "send_put cl \<lparr>Bucket = b, Key = k, IfMatch = etag_of out, IfNoneMatch = None, Body = body\<rparr> wa
          = (Inr resp, w1)"
    and h: "h = \<lparr>lock_bucket = b, lock_key = k, lock_etag = put_etag_of resp\<rparr>"
    by (auto simp: cas_attempt_def cas_catch_def split: sum.splits if_splits prod.splits)
  let ?cmd = "\<lparr>Bucket = b, Key = k, IfMatch = etag_of out, IfNoneMatch = None, Body = body\<rparr>"
  from p have "put_object cl ?cmd (backend wa) = (Inr resp, backend w1)"
    and "calls w1 = calls wa @ [Put ?cmd (Inr resp)]"
    by (auto simp: send_put_def split: prod.splits)
  then show ?thesis
    unfolding took_def using ca h
    by (intro exI [of _ "[Get (GetObjectCommand b k) r]"] exI [of _ ?cmd] exI [of _ resp]
        exI [of _ "backend wa"]) simp
qed

lemma cas_loop_took:
  "cas_loop cl cond gen ms b k attempt w = (Inr h, w1) \<Longrightarrow> took cl b k w h w1"
proof (induction "nat attempt" arbitrary: attempt w)
  case 0
  then show ?case by (simp add: cas_loop_done)
next
  case (Suc n)
  then have pos: "0 < attempt" and n: "n = nat (attempt - 1)" by simp_all
  obtain o1 wa where att: "cas_attempt cl cond gen ms b k w = (o1, wa)" by force
  show ?case
  proof (cases o1)
    case Continue
    with att pos Suc.prems have "cas_loop cl cond gen ms b k (attempt - 1) wa = (Inr h, w1)"
      by (simp add: cas_loop_continue)
    from Suc.hyps(1) [OF n this] have "took cl b k wa h w1" .
    moreover from cas_attempt_calls [of cl cond gen ms b k w] att
    obtain evs where "calls wa = calls w @ evs" by auto
    ultimately show ?thesis by (rule took_later)
  next
    case (Finish r)
    with att pos Suc.prems have "r = Inr h" "wa = w1"
      by (simp_all add: cas_loop_finish)
    with att Finish show ?thesis by (simp add: cas_attempt_took)
  qed
qed

lemma existence_lock_took:
  "existence_lock cl gen b k w = (Inr h, w1) \<Longrightarrow> took cl b k w h w1"
  unfolding took_def existence_lock_def send_put_def
  by (auto split: sum.splits prod.splits if_splits)

lemma acquireLock_took:
  "acquireLock parse cl props w = (Inr h, w1) \<Longrightarrow> took cl (bucket props) (key props) w h w1"
  by (simp add: acquireLock_def cas_loop_took existence_lock_took split: if_splits)

lemma etag_inject [simp]: "etag m = etag n \<longleftrightarrow> m = n"
proof
  assume "etag m = etag n"
  then have "length (etag m) = length (etag n)" by simp
  then show "m = n" by (simp add: etag_def)
qed simp

lemma s3_get_same [simp]: "snd (s3_get cmd s) = s"
  by (cases cmd) (simp split: option.split)

lemma s3_put_cases:
  obtains (rejected) "s3_put cmd s = (Inl preconditionFailed, s)"
  | (written) "s3_put cmd s =
      (Inr (PutObjectCommandOutput (Some (etag (next_tag s)))),
       s\<lparr>objects := (objects s)((Bucket cmd, Key cmd) \<mapsto> (Body cmd, etag (next_tag s))),
         next_tag := Suc (next_tag s)\<rparr>)"
  by (cases "precondition_holds cmd (objects s (Bucket cmd, Key cmd))") (simp_all add: s3_put_def)

lemma s3_put_newer: "newer n s bk \<Longrightarrow> newer n (snd (s3_put cmd s)) bk"
  by (cases cmd s rule: s3_put_cases) (auto simp: newer_def)

lemma s3_put_next_tag: "next_tag s \<le> next_tag (snd (s3_put cmd s))"
  by (cases cmd s rule: s3_put_cases) auto

lemma s3_put_fresh:
  "s3_put cmd s = (Inr resp, s') \<Longrightarrow> n \<le> next_tag s \<Longrightarrow> newer n s' (Bucket cmd, Key cmd)"
  by (cases cmd s rule: s3_put_cases) (auto simp: newer_def)

lemma serve_newer: "newer n s bk \<Longrightarrow> newer n (serve rs s) bk"
proof (induction rs arbitrary: s)
  case Nil
  then show ?case by simp
next
  case (Cons r rs)
  then show ?case by (cases r) (simp_all add: s3_put_newer)
qed

lemma wrote_to_newer: "wrote_to b k rs s \<Longrightarrow> n \<le> next_tag s \<Longrightarrow> newer n (serve rs s) (b, k)"
proof (induction rs arbitrary: s)
  case Nil
  then show ?case by simp
next
  case (Cons r rs)
  show ?case
  proof (cases r)
    case (GetRequest cmd)
    with Cons show ?thesis by simp
  next
    case (PutRequest cmd)
    obtain res s' where put: "s3_put cmd s = (res, s')" by force
    with s3_put_next_tag [of s cmd] Cons.prems(2) have le: "n \<le> next_tag s'" by simp
    show ?thesis
    proof (cases res)
      case (Inl e)
      with Cons.prems(1) PutRequest put have "wrote_to b k rs s'" by simp
      from Cons.IH [OF this le] PutRequest put show ?thesis by simp
    next
      case (Inr resp)
      show ?thesis
      proof (cases "Bucket cmd = b \<and> Key cmd = k")
        case True
        with s3_put_fresh [of cmd s resp s' n] put Inr Cons.prems(2) have "newer n s' (b, k)" by simp
        then have "newer n (serve rs s') (b, k)" by (rule serve_newer)
        with PutRequest put show ?thesis by simp
      next
        case False
        with Cons.prems(1) PutRequest put Inr have "wrote_to b k rs s'" by auto
        from Cons.IH [OF this le] PutRequest put show ?thesis by simp
      qed
    qed
  qed
qed

lemma stale_write_rejected:
  assumes "newer (Suc n) s (Bucket cmd, Key cmd)" and "IfMatch cmd = Some (etag n)"
  shows "s3_put cmd s = (Inl preconditionFailed, s)"
  using assms by (auto simp: s3_put_def precondition_holds_def newer_def)

lemma took_s3:
  assumes "took s3 b k w h w1"
  shows "\<exists>n. lock_bucket h = b \<and> lock_key h = k \<and> lock_etag h = Some (etag n) \<and> Suc n \<le> next_tag (backend w1)"
proof -
  from assms obtain cmd resp c0 where
    p: "s3_put cmd c0 = (Inr resp, backend w1)"
    and h: "h = \<lparr>lock_bucket = b, lock_key = k, lock_etag = put_etag_of resp\<rparr>"
    by (auto simp: took_def s3_def)
  have "\<exists>n. put_etag_of resp = Some (etag n) \<and> Suc n \<le> next_tag (backend w1)"
  proof (cases cmd c0 rule: s3_put_cases)
    case rejected
    with p show ?thesis by simp
  next
    case written
    with p have "resp = PutObjectCommandOutput (Some (etag (next_tag c0)))"
      and "backend w1 = c0\<lparr>objects := (objects c0)((Bucket cmd, Key cmd) \<mapsto> (Body cmd, etag (next_tag c0))),
         next_tag := Suc (next_tag c0)\<rparr>"
      by simp_all
    then show ?thesis by simp
  qed
  then show ?thesis unfolding h by simp
qed

lemma release_eq:
  "release cl h newBody w =
     (case put_object cl \<lparr>Bucket = lock_bucket h, Key = lock_key h, IfMatch = lock_etag h,
                           IfNoneMatch = None, Body = newBody\<rparr> (backend w) of
        (r, c) \<Rightarrow>
          (case r of Inl e \<Rightarrow> Inl e | Inr resp \<Rightarrow> Inr (),
           w\<lparr>backend := c,
             calls := calls w @ [Put \<lparr>Bucket = lock_bucket h, Key = lock_key h, IfMatch = lock_etag h,
                                     IfNoneMatch = None, Body = newBody\<rparr> r]\<rparr>))"
  by (simp add: release_def send_put_def split: prod.split sum.split)

lemma acquire_plain_empty:
  "acquireLock parse_example s3 props_plain (start empty_store) = (Inr lock_taken, after_acquire)"
  by (simp add: acquireLock_def existence_lock_def send_put_def s3_def s3_put_def precondition_holds_def
      props_plain_def generateBody_of_def defaultGenerateBody_def empty_store_def start_def
      lock_taken_def after_acquire_def held_def existence_write_def)

section \<open>Claims\<close>

text \<open>
  C1. Two \<^verbatim>\<open>acquireLock\<close> calls without a predicate, for one key that holds no object,
  in flight at once against the store, each with a body generator that returns a body:
  whichever write the store serves first, the call that sent it returns a handle and the
  other call fails with \<^verbatim>\<open>LockNotAcquiredError\<close>; the key then holds the body and
  the version tag of the winner.
\<close>

theorem existence_locks_exclude:
  assumes "\<not> isCompareAndSwapLock p1" and "\<not> isCompareAndSwapLock p2"
    and "bucket p2 = bucket p1" and "key p2 = key p1"
    and "objects (backend w) (bucket p1, key p1) = None"
    and "generateBody_of p1 () = Inr body1" and "generateBody_of p2 () = Inr body2"
  shows "\<exists>h w'. concurrently parse s3 ord p1 p2 w =
           (case ord of
              FirstWrites \<Rightarrow> (Inr h, Inl lockNotAcquired, w')
            | SecondWrites \<Rightarrow> (Inl lockNotAcquired, Inr h, w'))
         \<and> lock_etag h = Some (etag (next_tag (backend w)))
         \<and> objects (backend w') (bucket p1, key p1) =
             Some (case ord of FirstWrites \<Rightarrow> body1 | SecondWrites \<Rightarrow> body2, etag (next_tag (backend w)))"
proof -
  have pf: "isPreconditionFailed preconditionFailed" by (simp add: preconditionFailed_def)
  show ?thesis
  proof (cases ord)
    case FirstWrites
    with assms pf show ?thesis
      by (simp add: concurrently_def acquireLock_def existence_lock_def send_put_def s3_def s3_put_def
          precondition_holds_def)
  next
    case SecondWrites
    with assms pf show ?thesis
      by (simp add: concurrently_def acquireLock_def existence_lock_def send_put_def s3_def s3_put_def
          precondition_holds_def)
  qed
qed

theorem existence_locks_exclude_witness:
  "\<not> isCompareAndSwapLock props_plain
   \<and> objects (backend (start empty_store)) (bucket props_plain, key props_plain) = None
   \<and> generateBody_of props_plain () = Inr (stringify_locked True)
   \<and> (\<exists>h w'. concurrently parse_example s3 FirstWrites props_plain props_plain (start empty_store)
               = (Inr h, Inl lockNotAcquired, w'))
   \<and> (\<exists>h w'. concurrently parse_example s3 SecondWrites props_plain props_plain (start empty_store)
               = (Inl lockNotAcquired, Inr h, w'))"
proof -
  have m: "\<not> isCompareAndSwapLock props_plain" by (simp add: props_plain_def)
  have e: "objects (backend (start empty_store)) (bucket props_plain, key props_plain) = None"
    by (simp add: start_def empty_store_def)
  have g: "generateBody_of props_plain () = Inr (stringify_locked True)"
    by (simp add: generateBody_of_def props_plain_def defaultGenerateBody_def)
  note t = existence_locks_exclude [OF m m refl refl e g g, of parse_example]
  from t [of FirstWrites] t [of SecondWrites] m e g show ?thesis by auto
qed

text \<open>
  C2. When \<^verbatim>\<open>acquireLock\<close> returns a handle, in either mode, the last command it
  sent is a write that the store accepted and the handle keeps the version tag of its
  answer; \<^verbatim>\<open>release\<close> sends one write, with \<^verbatim>\<open>If-Match\<close> set to that tag, and fails
  with the error of the write when the write fails. Against the store: when a write of
  anyone to the key succeeds between the acquisition and the release, the write of
  \<^verbatim>\<open>release\<close> is rejected, \<^verbatim>\<open>release\<close> fails with \<^verbatim>\<open>PreconditionFailed\<close>, and the
  store is left as it was.
\<close>

theorem release_conditional_on_acquire_tag:
  "(acquireLock parse cl props w = (Inr h, w1) \<longrightarrow>
      took cl (bucket props) (key props) w h w1
      \<and> release cl h newBody w2 =
         (case put_object cl \<lparr>Bucket = bucket props, Key = key props, IfMatch = lock_etag h,
                               IfNoneMatch = None, Body = newBody\<rparr> (backend w2) of
            (r, c) \<Rightarrow>
              (case r of Inl e \<Rightarrow> Inl e | Inr resp \<Rightarrow> Inr (),
               w2\<lparr>backend := c,
                  calls := calls w2 @ [Put \<lparr>Bucket = bucket props, Key = key props, IfMatch = lock_etag h,
                                          IfNoneMatch = None, Body = newBody\<rparr> r]\<rparr>)))
   \<and> (acquireLock parse s3 props' v = (Inr h', v1)
        \<and> wrote_to (bucket props') (key props') rs (backend v1) \<longrightarrow>
      release s3 h' newBody (v1\<lparr>backend := serve rs (backend v1)\<rparr>) =
        (Inl preconditionFailed,
         v1\<lparr>backend := serve rs (backend v1),
            calls := calls v1 @ [Put \<lparr>Bucket = bucket props', Key = key props', IfMatch = lock_etag h',
                                    IfNoneMatch = None, Body = newBody\<rparr> (Inl preconditionFailed)]\<rparr>))"
proof (intro conjI impI)
  assume a: "acquireLock parse cl props w = (Inr h, w1)"
  then show t: "took cl (bucket props) (key props) w h w1" by (rule acquireLock_took)
  then have "lock_bucket h = bucket props" "lock_key h = key props" by (auto simp: took_def)
  then show "release cl h newBody w2 =
         (case put_object cl \<lparr>Bucket = bucket props, Key = key props, IfMatch = lock_etag h,
                               IfNoneMatch = None, Body = newBody\<rparr> (backend w2) of
            (r, c) \<Rightarrow>
              (case r of Inl e \<Rightarrow> Inl e | Inr resp \<Rightarrow> Inr (),
               w2\<lparr>backend := c,
                  calls := calls w2 @ [Put \<lparr>Bucket = bucket props, Key = key props, IfMatch = lock_etag h,
                                          IfNoneMatch = None, Body = newBody\<rparr> r]\<rparr>))"
    by (simp add: release_eq)
next
  assume a: "acquireLock parse s3 props' v = (Inr h', v1)
        \<and> wrote_to (bucket props') (key props') rs (backend v1)"
  then have "acquireLock parse s3 props' v = (Inr h', v1)" by simp
  then have "took s3 (bucket props') (key props') v h' v1" by (rule acquireLock_took)
  from took_s3 [OF this] obtain n where
    h: "lock_bucket h' = bucket props'" "lock_key h' = key props'" "lock_etag h' = Some (etag n)"
    and n: "Suc n \<le> next_tag (backend v1)"
    by blast
  from a n have "newer (Suc n) (serve rs (backend v1)) (bucket props', key props')"
    by (simp add: wrote_to_newer)
  then have "s3_put \<lparr>Bucket = bucket props', Key = key props', IfMatch = lock_etag h',
                      IfNoneMatch = None, Body = newBody\<rparr> (serve rs (backend v1))
             = (Inl preconditionFailed, serve rs (backend v1))"
    using h(3) by (simp add: stale_write_rejected)
  then show "release s3 h' newBody (v1\<lparr>backend := serve rs (backend v1)\<rparr>) =
        (Inl preconditionFailed,
         v1\<lparr>backend := serve rs (backend v1),
            calls := calls v1 @ [Put \<lparr>Bucket = bucket props', Key = key props', IfMatch = lock_etag h',
                                    IfNoneMatch = None, Body = newBody\<rparr> (Inl preconditionFailed)]\<rparr>)"
    using h by (simp add: release_eq s3_def)
qed

theorem release_conditional_on_acquire_tag_witness:
  "acquireLock parse_example s3 props_plain (start empty_store) = (Inr lock_taken, after_acquire)
   \<and> wrote_to ''b'' ''k'' [PutRequest rival_write] (backend after_acquire)
   \<and> took s3 ''b'' ''k'' (start empty_store) lock_taken after_acquire
   \<and> release s3 lock_taken (stringify_locked False) after_acquire =
       (Inr (),
        \<lparr>backend = \<lparr>objects = [(''b'', ''k'') \<mapsto> (stringify_locked False, etag 1)], next_tag = 2\<rparr>,
          calls = calls after_acquire @ [Put release_write (Inr (PutObjectCommandOutput (Some (etag 1))))]\<rparr>)
   \<and> release s3 lock_taken (stringify_locked False)
        (after_acquire\<lparr>backend := serve [PutRequest rival_write] (backend after_acquire)\<rparr>) =
       (Inl preconditionFailed,
        \<lparr>backend = serve [PutRequest rival_write] held,
          calls = calls after_acquire @ [Put release_write (Inl preconditionFailed)]\<rparr>)"
proof -
  note a = acquire_plain_empty
  have w: "wrote_to ''b'' ''k'' [PutRequest rival_write] (backend after_acquire)"
    by (simp add: after_acquire_def held_def rival_write_def s3_put_def precondition_holds_def)
  have bk: "bucket props_plain = ''b''" "key props_plain = ''k''" "lock_etag lock_taken = Some (etag 0)"
    by (simp_all add: props_plain_def lock_taken_def)
  have p: "put_object s3 release_write (backend after_acquire) =
      (Inr (PutObjectCommandOutput (Some (etag 1))),
       \<lparr>objects = [(''b'', ''k'') \<mapsto> (stringify_locked False, etag 1)], next_tag = 2\<rparr>)"
    by (simp add: s3_def s3_put_def precondition_holds_def release_write_def after_acquire_def held_def)
  note t = release_conditional_on_acquire_tag
    [where parse = parse_example and cl = s3 and props = props_plain and w = "start empty_store"
       and h = lock_taken and ?w1.0 = after_acquire and ?w2.0 = after_acquire
       and newBody = "stringify_locked False" and props' = props_plain and v = "start empty_store"
       and h' = lock_taken and ?v1.0 = after_acquire and rs = "[PutRequest rival_write]"]
  from t a have 1: "took s3 ''b'' ''k'' (start empty_store) lock_taken after_acquire"
    by (simp add: bk)
  from t a p have 2: "release s3 lock_taken (stringify_locked False) after_acquire =
       (Inr (),
        \<lparr>backend = \<lparr>objects = [(''b'', ''k'') \<mapsto> (stringify_locked False, etag 1)], next_tag = 2\<rparr>,
          calls = calls after_acquire @ [Put release_write (Inr (PutObjectCommandOutput (Some (etag 1))))]\<rparr>)"
    by (simp add: bk release_write_def [symmetric] after_acquire_def)
  from t a w have 3: "release s3 lock_taken (stringify_locked False)
        (after_acquire\<lparr>backend := serve [PutRequest rival_write] (backend after_acquire)\<rparr>) =
       (Inl preconditionFailed,
        \<lparr>backend = serve [PutRequest rival_write] held,
          calls = calls after_acquire @ [Put release_write (Inl preconditionFailed)]\<rparr>)"
    by (simp add: bk release_write_def [symmetric] after_acquire_def)
  from a w 1 2 3 show ?thesis by simp
qed

text \<open>
  C3. A compare-and-swap \<^verbatim>\<open>acquireLock\<close> whose predicate is false on every read (each
  read returning an object) fails with \<^verbatim>\<open>LockNotAcquiredError\<close> after exactly
  \<^verbatim>\<open>maxAttempts\<close> reads (5 when the property is missing) and no write. \<open>I\<close> is any
  property of the state behind the client that holds at the start and that the reads
  keep, under which each read answers and the predicate says false.
\<close>

theorem cas_predicate_never_true:
  assumes "isCompareAndSwapLock props"
    and "I (backend w)"
    and "\<forall>c. I c \<longrightarrow>
           (\<exists>out c'. get_object cl (GetObjectCommand (bucket props) (key props)) c = (Inr out, c')
              \<and> conditional_of parse props out = Inr False \<and> I c')"
  shows "\<exists>w' evs. acquireLock parse cl props w = (Inl lockNotAcquired, w')
       \<and> calls w' = calls w @ evs
       \<and> length (filter isGet evs) = nat (attempt_of props)
       \<and> filter isPut evs = []"
  using assms(1) cas_loop_never [OF assms(3) assms(2)] by (simp add: acquireLock_def)

theorem cas_predicate_never_true_witness:
  "isCompareAndSwapLock (props_cas 3) \<and> backend (start held) = held \<and>
   (\<exists>out c'. get_object s3 (GetObjectCommand (bucket (props_cas 3)) (key (props_cas 3))) held = (Inr out, c')
      \<and> conditional_of parse_example (props_cas 3) out = Inr False \<and> c' = held) \<and>
   (\<exists>w' evs. acquireLock parse_example s3 (props_cas 3) (start held) = (Inl lockNotAcquired, w')
       \<and> calls w' = evs \<and> length (filter isGet evs) = 3 \<and> filter isPut evs = [])"
proof -
  have a: "isCompareAndSwapLock (props_cas 3)" by (simp add: props_cas_def)
  have b: "backend (start held) = held" by (simp add: start_def)
  have c: "attempt_of (props_cas 3) = 3" "calls (start held) = []"
    by (simp_all add: props_cas_def attempt_of_def start_def)
  show ?thesis
    using a b held_read [of 3]
      cas_predicate_never_true [of "props_cas 3" "\<lambda>c. c = held" "start held" s3 parse_example,
        OF a b held_read]
    unfolding c by simp
qed

text \<open>
  C4. \<^verbatim>\<open>initializeLockFile\<close> sends its write without \<^verbatim>\<open>If-None-Match\<close>. On a key
  that holds a taken lock the store accepts the write: the call succeeds and the body
  \<^verbatim>\<open>{"locked":true}\<close> is replaced by \<^verbatim>\<open>{"locked":false}\<close>.
\<close>

theorem initializeLockFile_overwrites:
  "objects held (''b'', ''k'') = Some (stringify_locked True, etag 0)
   \<and> initializeLockFile s3 ''b'' ''k'' (start held) =
      (Inr (),
       \<lparr>backend = \<lparr>objects = [(''b'', ''k'') \<mapsto> (stringify_locked False, etag 1)], next_tag = 2\<rparr>,
         calls = [Put \<lparr>Bucket = ''b'', Key = ''k'', IfMatch = None, IfNoneMatch = None,
                        Body = stringify_locked False\<rparr> (Inr (PutObjectCommandOutput (Some (etag 1))))]\<rparr>)"
  by (simp add: initializeLockFile_def send_put_def s3_def s3_put_def precondition_holds_def
      held_def start_def)

text \<open>
  A call without the property \<^verbatim>\<open>conditional\<close> is not a compare-and-swap acquisition
  with the default predicate: on a key that holds a free lock it sends one write with
  \<^verbatim>\<open>If-None-Match\<close>, reads nothing and fails, where the call with the default predicate
  reads, writes and returns a handle. And the default predicate is true on the body
  \<^verbatim>\<open>{}\<close>, which has no \<^verbatim>\<open>locked\<close> property set to false.
\<close>

theorem omitted_predicate_counterexample:
  "acquireLock parse_example s3 props_plain (start free)
     \<noteq> acquireLock parse_example s3 props_default (start free)
   \<and> acquireLock parse_example s3 props_plain (start free) =
     (Inl lockNotAcquired,
      \<lparr>backend = free,
        calls = [Put \<lparr>Bucket = ''b'', Key = ''k'', IfMatch = None, IfNoneMatch = Some ''*'',
                       Body = stringify_locked True\<rparr> (Inl preconditionFailed)]\<rparr>)
   \<and> acquireLock parse_example s3 props_default (start free) =
     (Inr \<lparr>lock_bucket = ''b'', lock_key = ''k'', lock_etag = Some (etag 1)\<rparr>,
      \<lparr>backend = \<lparr>objects = [(''b'', ''k'') \<mapsto> (stringify_locked True, etag 1)], next_tag = 2\<rparr>,
        calls = [Get (GetObjectCommand ''b'' ''k'') (Inr free_output),
                 Put cas_write (Inr (PutObjectCommandOutput (Some (etag 1))))]\<rparr>)
   \<and> defaultConditional parse_example (GetObjectCommandOutput (Some ''{}'') (Some (etag 0))) = Inr True
   \<and> parse_example ''{}'' = Inr (JObject [])
   \<and> locked_of (JObject []) \<noteq> Some (JBool False)"
proof -
  have pf: "isPreconditionFailed preconditionFailed" by (simp add: preconditionFailed_def)
  have "acquireLock parse_example s3 props_plain (start free) =
     (Inl lockNotAcquired,
      \<lparr>backend = free,
        calls = [Put \<lparr>Bucket = ''b'', Key = ''k'', IfMatch = None, IfNoneMatch = Some ''*'',
                       Body = stringify_locked True\<rparr> (Inl preconditionFailed)]\<rparr>)"
    using pf
    by (simp add: acquireLock_def existence_lock_def send_put_def s3_def s3_put_def precondition_holds_def
      props_plain_def generateBody_of_def defaultGenerateBody_def free_def start_def)
  moreover have "cas_attempt s3 (defaultConditional parse_example) defaultGenerateBody 5000 ''b'' ''k'' (start free)
     = (Finish (Inr \<lparr>lock_bucket = ''b'', lock_key = ''k'', lock_etag = Some (etag 1)\<rparr>),
      \<lparr>backend = \<lparr>objects = [(''b'', ''k'') \<mapsto> (stringify_locked True, etag 1)], next_tag = 2\<rparr>,
        calls = [Get (GetObjectCommand ''b'' ''k'') (Inr free_output),
                 Put cas_write (Inr (PutObjectCommandOutput (Some (etag 1))))]\<rparr>)"
    using free_output_true
    by (simp add: cas_attempt_def send_get_def send_put_def s3_def s3_put_def precondition_holds_def
        free_def start_def free_output_def cas_write_def defaultGenerateBody_def)
  then have "acquireLock parse_example s3 props_default (start free) =
     (Inr \<lparr>lock_bucket = ''b'', lock_key = ''k'', lock_etag = Some (etag 1)\<rparr>,
      \<lparr>backend = \<lparr>objects = [(''b'', ''k'') \<mapsto> (stringify_locked True, etag 1)], next_tag = 2\<rparr>,
        calls = [Get (GetObjectCommand ''b'' ''k'') (Inr free_output),
                 Put cas_write (Inr (PutObjectCommandOutput (Some (etag 1))))]\<rparr>)"
    by (simp add: acquireLock_def props_default_def props_plain_def conditional_of_def generateBody_of_def
        timeout_of_def attempt_of_def cas_loop_finish)
  moreover have "defaultConditional parse_example (GetObjectCommandOutput (Some ''{}'') (Some (etag 0))) = Inr True"
    "parse_example ''{}'' = Inr (JObject [])"
    by (simp_all add: defaultConditional_def parse_example_def)
  ultimately show ?thesis by simp
qed

text \<open>
  C5, as the code has it. A call without the property \<^verbatim>\<open>conditional\<close> is an
  acquisition by creation. A call whose property \<^verbatim>\<open>conditional\<close> is present and
  undefined is the compare-and-swap acquisition with the default predicate. The default
  predicate returns true exactly when the body (\<^verbatim>\<open>{}\<close> when there is none) is parsed
  to a value whose \<^verbatim>\<open>locked\<close> property is missing or falsy; on a body whose
  \<^verbatim>\<open>locked\<close> is a boolean it returns the negation of that boolean.
\<close>

theorem conditional_selects_mode:
  "acquireLock parse cl (props\<lparr>conditional := Absent\<rparr>) w =
     existence_lock cl (generateBody_of props) (bucket props) (key props) w
   \<and> acquireLock parse cl (props\<lparr>conditional := Undefined\<rparr>) w =
     acquireLock parse cl (props\<lparr>conditional := Value (defaultConditional parse)\<rparr>) w
   \<and> (defaultConditional parse out = Inr True) =
     (\<exists>v. parse (case body_of out of None \<Rightarrow> ''{}'' | Some body \<Rightarrow> body) = Inr v
          \<and> \<not> toBoolean (locked_of v))
   \<and> (parse body = Inr v \<and> locked_of v = Some (JBool locked) \<longrightarrow>
        defaultConditional parse (GetObjectCommandOutput (Some body) t) = Inr (\<not> locked))"
  by (auto simp: acquireLock_def generateBody_of_def conditional_of_def attempt_of_def timeout_of_def
      defaultConditional_def split: sum.splits)

theorem conditional_selects_mode_witness:
  "parse_example (stringify_locked False) = Inr (JObject [(''locked'', JBool False)])
   \<and> locked_of (JObject [(''locked'', JBool False)]) = Some (JBool False)
   \<and> defaultConditional parse_example free_output = Inr True
   \<and> acquireLock parse_example s3 (props_plain\<lparr>conditional := Absent\<rparr>) (start free) =
       existence_lock s3 (generateBody_of props_plain) ''b'' ''k'' (start free)"
proof -
  have p: "parse_example (stringify_locked False) = Inr (JObject [(''locked'', JBool False)])"
    by (simp add: parse_example_def stringify_locked_def)
  show ?thesis
    using p conditional_selects_mode [where parse = parse_example and body = "stringify_locked False"
        and v = "JObject [(''locked'', JBool False)]" and locked = False and t = "Some (etag 0)"
        and cl = s3 and props = props_plain and w = "start free"]
    by (simp add: free_output_def props_plain_def)
qed

text \<open>
  C6. In the loop of the compare-and-swap acquisition, with an attempt left: a write that
  the store rejects with a \<^verbatim>\<open>PreconditionFailed\<close> error is followed by a wait of the
  delay and by the rest of the loop with one attempt fewer, which starts with a read when
  an attempt is left; a write that fails with any other error ends the call with that
  error, with no wait and no further command; and a read that fails ends the call with
  the error of the read.
\<close>

theorem cas_loop_errors:
  fixes cl :: "'c s3_client"
  defines "read \<equiv> GetObjectCommand"
  assumes "0 < attempt"
  shows
    "(get_object cl (read b k) (backend w) = (Inr out, c1) \<and> cond out = Inr True \<and> gen () = Inr body
        \<and> put_object cl \<lparr>Bucket = b, Key = k, IfMatch = etag_of out, IfNoneMatch = None, Body = body\<rparr> c1
             = (Inl e, c2) \<and> isPreconditionFailed e \<longrightarrow>
      cas_loop cl cond gen ms b k attempt w =
        cas_loop cl cond gen ms b k (attempt - 1)
          (w\<lparr>backend := c2,
             calls := calls w @
               [Get (read b k) (Inr out),
                Put \<lparr>Bucket = b, Key = k, IfMatch = etag_of out, IfNoneMatch = None, Body = body\<rparr> (Inl e),
                Timeout ms]\<rparr>)
      \<and> (1 < attempt \<longrightarrow>
           (\<exists>r evs. calls (snd (cas_loop cl cond gen ms b k attempt w)) =
              calls w @
               [Get (read b k) (Inr out),
                Put \<lparr>Bucket = b, Key = k, IfMatch = etag_of out, IfNoneMatch = None, Body = body\<rparr> (Inl e),
                Timeout ms, Get (read b k) r] @ evs)))
   \<and> (get_object cl (read b k) (backend w) = (Inr out, c1) \<and> cond out = Inr True \<and> gen () = Inr body
        \<and> put_object cl \<lparr>Bucket = b, Key = k, IfMatch = etag_of out, IfNoneMatch = None, Body = body\<rparr> c1
             = (Inl e, c2) \<and> \<not> isPreconditionFailed e \<longrightarrow>
      cas_loop cl cond gen ms b k attempt w =
        (Inl e,
         w\<lparr>backend := c2,
           calls := calls w @
             [Get (read b k) (Inr out),
              Put \<lparr>Bucket = b, Key = k, IfMatch = etag_of out, IfNoneMatch = None, Body = body\<rparr> (Inl e)]\<rparr>))
   \<and> (get_object cl (read b k) (backend w) = (Inl e, c1) \<longrightarrow>
      cas_loop cl cond gen ms b k attempt w =
        (Inl e, w\<lparr>backend := c1, calls := calls w @ [Get (read b k) (Inl e)]\<rparr>))"
proof (intro conjI impI)
  assume a: "get_object cl (read b k) (backend w) = (Inr out, c1) \<and> cond out = Inr True \<and> gen () = Inr body
        \<and> put_object cl \<lparr>Bucket = b, Key = k, IfMatch = etag_of out, IfNoneMatch = None, Body = body\<rparr> c1
             = (Inl e, c2) \<and> isPreconditionFailed e"
  let ?w' = "w\<lparr>backend := c2,
             calls := calls w @
               [Get (read b k) (Inr out),
                Put \<lparr>Bucket = b, Key = k, IfMatch = etag_of out, IfNoneMatch = None, Body = body\<rparr> (Inl e),
                Timeout ms]\<rparr>"
  from a have "cas_attempt cl cond gen ms b k w = (Continue, ?w')"
    by (simp add: read_def cas_attempt_write_error cas_catch_def sleep_def)
  with assms show step: "cas_loop cl cond gen ms b k attempt w = cas_loop cl cond gen ms b k (attempt - 1) ?w'"
    by (simp add: cas_loop_continue)
  assume "1 < attempt"
  then have "0 < attempt - 1" by simp
  from cas_loop_reads_first [OF this, of cl cond gen ms b k ?w']
  show "\<exists>r evs. calls (snd (cas_loop cl cond gen ms b k attempt w)) =
              calls w @
               [Get (read b k) (Inr out),
                Put \<lparr>Bucket = b, Key = k, IfMatch = etag_of out, IfNoneMatch = None, Body = body\<rparr> (Inl e),
                Timeout ms, Get (read b k) r] @ evs"
    unfolding step by (simp add: read_def)
next
  assume a: "get_object cl (read b k) (backend w) = (Inr out, c1) \<and> cond out = Inr True \<and> gen () = Inr body
        \<and> put_object cl \<lparr>Bucket = b, Key = k, IfMatch = etag_of out, IfNoneMatch = None, Body = body\<rparr> c1
             = (Inl e, c2) \<and> \<not> isPreconditionFailed e"
  then have "cas_attempt cl cond gen ms b k w =
     (Finish (Inl e), w\<lparr>backend := c2,
           calls := calls w @
             [Get (read b k) (Inr out),
              Put \<lparr>Bucket = b, Key = k, IfMatch = etag_of out, IfNoneMatch = None, Body = body\<rparr> (Inl e)]\<rparr>)"
    by (simp add: read_def cas_attempt_write_error cas_catch_def)
  with assms show "cas_loop cl cond gen ms b k attempt w =
        (Inl e,
         w\<lparr>backend := c2,
           calls := calls w @
             [Get (read b k) (Inr out),
              Put \<lparr>Bucket = b, Key = k, IfMatch = etag_of out, IfNoneMatch = None, Body = body\<rparr> (Inl e)]\<rparr>)"
    by (simp add: cas_loop_finish)
next
  assume "get_object cl (read b k) (backend w) = (Inl e, c1)"
  then show "cas_loop cl cond gen ms b k attempt w =
        (Inl e, w\<lparr>backend := c1, calls := calls w @ [Get (read b k) (Inl e)]\<rparr>)"
    using assms by (simp add: read_def cas_attempt_read_error cas_loop_finish)
qed

theorem cas_loop_errors_witness:
  "isPreconditionFailed preconditionFailed \<and> \<not> isPreconditionFailed accessDenied
   \<and> cas_loop (s3_raced rival_write) (defaultConditional parse_example) defaultGenerateBody 100 ''b'' ''k'' 2
        (start free) =
      cas_loop (s3_raced rival_write) (defaultConditional parse_example) defaultGenerateBody 100 ''b'' ''k'' 1
        \<lparr>backend = serve [PutRequest rival_write] free,
          calls = [Get (GetObjectCommand ''b'' ''k'') (Inr free_output),
                   Put cas_write (Inl preconditionFailed), Timeout 100]\<rparr>
   \<and> cas_loop (s3_read_only accessDenied) (defaultConditional parse_example) defaultGenerateBody 100 ''b'' ''k'' 2
        (start free) =
      (Inl accessDenied,
       \<lparr>backend = free,
         calls = [Get (GetObjectCommand ''b'' ''k'') (Inr free_output), Put cas_write (Inl accessDenied)]\<rparr>)
   \<and> cas_loop s3 (defaultConditional parse_example) defaultGenerateBody 100 ''b'' ''k'' 2 (start empty_store) =
      (Inl noSuchKey,
       \<lparr>backend = empty_store, calls = [Get (GetObjectCommand ''b'' ''k'') (Inl noSuchKey)]\<rparr>)"
proof -
  have pf: "isPreconditionFailed preconditionFailed" "\<not> isPreconditionFailed accessDenied"
    by (simp_all add: preconditionFailed_def accessDenied_def)
  have pos: "(0::int) < 2" by simp
  have gen: "defaultGenerateBody () = Inr (stringify_locked True)"
    by (simp add: defaultGenerateBody_def)
  have get_raced: "get_object (s3_raced rival_write) (GetObjectCommand ''b'' ''k'') (backend (start free))
      = (Inr free_output, free)"
    by (simp add: s3_raced_def start_def free_def free_output_def)
  have get_ro: "get_object (s3_read_only accessDenied) (GetObjectCommand ''b'' ''k'') (backend (start free))
      = (Inr free_output, free)"
    by (simp add: s3_read_only_def start_def free_def free_output_def)
  have get_none: "get_object s3 (GetObjectCommand ''b'' ''k'') (backend (start empty_store))
      = (Inl noSuchKey, empty_store)"
    by (simp add: s3_def start_def empty_store_def noSuchKey_def)
  have put_raced: "put_object (s3_raced rival_write)
        \<lparr>Bucket = ''b'', Key = ''k'', IfMatch = etag_of free_output, IfNoneMatch = None,
          Body = stringify_locked True\<rparr> free
      = (Inl preconditionFailed, serve [PutRequest rival_write] free)"
    by (simp add: s3_raced_def s3_put_def precondition_holds_def free_def free_output_def
        rival_write_def etag_def)
  have put_ro: "put_object (s3_read_only accessDenied)
        \<lparr>Bucket = ''b'', Key = ''k'', IfMatch = etag_of free_output, IfNoneMatch = None,
          Body = stringify_locked True\<rparr> free
      = (Inl accessDenied, free)"
    by (simp add: s3_read_only_def)
  have tag: "etag_of free_output = Some (etag 0)" by (simp add: free_output_def)
  note a = cas_loop_errors [where attempt = 2 and cl = "s3_raced rival_write" and b = "''b''" and k = "''k''"
      and w = "start free" and out = free_output and ?c1.0 = free
      and cond = "defaultConditional parse_example" and gen = defaultGenerateBody
      and body = "stringify_locked True" and e = preconditionFailed
      and ?c2.0 = "serve [PutRequest rival_write] free" and ms = 100, OF pos]
  note b = cas_loop_errors [where attempt = 2 and cl = "s3_read_only accessDenied" and b = "''b''" and k = "''k''"
      and w = "start free" and out = free_output and ?c1.0 = free
      and cond = "defaultConditional parse_example" and gen = defaultGenerateBody
      and body = "stringify_locked True" and e = accessDenied
      and ?c2.0 = free and ms = 100, OF pos]
  note c = cas_loop_errors [where attempt = 2 and cl = s3 and b = "''b''" and k = "''k''"
      and w = "start empty_store" and e = noSuchKey and ?c1.0 = empty_store
      and cond = "defaultConditional parse_example" and gen = defaultGenerateBody and ms = 100, OF pos]
  have "cas_loop (s3_raced rival_write) (defaultConditional parse_example) defaultGenerateBody 100 ''b'' ''k'' 2
        (start free) =
      cas_loop (s3_raced rival_write) (defaultConditional parse_example) defaultGenerateBody 100 ''b'' ''k'' 1
        \<lparr>backend = serve [PutRequest rival_write] free,
          calls = [Get (GetObjectCommand ''b'' ''k'') (Inr free_output),
                   Put cas_write (Inl preconditionFailed), Timeout 100]\<rparr>"
    using a get_raced put_raced gen free_output_true pf(1)
    by (simp add: tag cas_write_def start_def)
  moreover have "cas_loop (s3_read_only accessDenied) (defaultConditional parse_example) defaultGenerateBody 100
        ''b'' ''k'' 2 (start free) =
      (Inl accessDenied,
       \<lparr>backend = free,
         calls = [Get (GetObjectCommand ''b'' ''k'') (Inr free_output), Put cas_write (Inl accessDenied)]\<rparr>)"
    using b get_ro put_ro gen free_output_true pf(2)
    by (simp add: tag cas_write_def start_def)
  moreover have "cas_loop s3 (defaultConditional parse_example) defaultGenerateBody 100 ''b'' ''k'' 2
        (start empty_store) =
      (Inl noSuchKey,
       \<lparr>backend = empty_store, calls = [Get (GetObjectCommand ''b'' ''k'') (Inl noSuchKey)]\<rparr>)"
    using c get_none by (simp add: start_def)
  ultimately show ?thesis using pf by simp
qed

text \<open>
  C7. An \<^verbatim>\<open>acquireLock\<close> without a predicate, whose body generator returns a body,
  sends one command: a write with \<^verbatim>\<open>If-None-Match: *\<close>. When the write succeeds the
  handle carries the version tag of its answer, when it fails with
  \<^verbatim>\<open>PreconditionFailed\<close> the call fails with \<^verbatim>\<open>LockNotAcquiredError\<close>, and when
  it fails with another error the call fails with that error.
\<close>

theorem existence_lock_single_write:
  assumes "\<not> isCompareAndSwapLock props"
    and "generateBody_of props () = Inr body"
    and "put_object cl \<lparr>Bucket = bucket props, Key = key props, IfMatch = None, IfNoneMatch = Some ''*'',
            Body = body\<rparr> (backend w) = (r, c)"
  shows "acquireLock parse cl props w =
     ((case r of
         Inl e \<Rightarrow> if isPreconditionFailed e then Inl lockNotAcquired else Inl e
       | Inr resp \<Rightarrow> Inr \<lparr>lock_bucket = bucket props, lock_key = key props, lock_etag = put_etag_of resp\<rparr>),
      w\<lparr>backend := c, calls := calls w @ [Put \<lparr>Bucket = bucket props, Key = key props, IfMatch = None,
            IfNoneMatch = Some ''*'', Body = body\<rparr> r]\<rparr>)"
  using assms by (simp add: acquireLock_def existence_lock_def send_put_def split: sum.split)

theorem existence_lock_single_write_witness:
  "\<not> isCompareAndSwapLock props_plain
   \<and> generateBody_of props_plain () = Inr (stringify_locked True)
   \<and> acquireLock parse_example s3 props_plain (start empty_store) =
       (Inr \<lparr>lock_bucket = ''b'', lock_key = ''k'', lock_etag = Some (etag 0)\<rparr>,
        \<lparr>backend = \<lparr>objects = [(''b'', ''k'') \<mapsto> (stringify_locked True, etag 0)], next_tag = 1\<rparr>,
          calls = [Put \<lparr>Bucket = ''b'', Key = ''k'', IfMatch = None, IfNoneMatch = Some ''*'',
                         Body = stringify_locked True\<rparr> (Inr (PutObjectCommandOutput (Some (etag 0))))]\<rparr>)
   \<and> acquireLock parse_example s3 props_plain (start held) =
       (Inl lockNotAcquired,
        \<lparr>backend = held,
          calls = [Put \<lparr>Bucket = ''b'', Key = ''k'', IfMatch = None, IfNoneMatch = Some ''*'',
                         Body = stringify_locked True\<rparr> (Inl preconditionFailed)]\<rparr>)
   \<and> acquireLock parse_example (s3_read_only accessDenied) props_plain (start empty_store) =
       (Inl accessDenied,
        \<lparr>backend = empty_store,
          calls = [Put \<lparr>Bucket = ''b'', Key = ''k'', IfMatch = None, IfNoneMatch = Some ''*'',
                         Body = stringify_locked True\<rparr> (Inl accessDenied)]\<rparr>)"
proof -
  have m: "\<not> isCompareAndSwapLock props_plain" by (simp add: props_plain_def)
  have g: "generateBody_of props_plain () = Inr (stringify_locked True)"
    by (simp add: generateBody_of_def props_plain_def defaultGenerateBody_def)
  have p1: "put_object s3 \<lparr>Bucket = bucket props_plain, Key = key props_plain, IfMatch = None,
        IfNoneMatch = Some ''*'', Body = stringify_locked True\<rparr> (backend (start empty_store))
      = (Inr (PutObjectCommandOutput (Some (etag 0))),
         \<lparr>objects = [(''b'', ''k'') \<mapsto> (stringify_locked True, etag 0)], next_tag = 1\<rparr>)"
    by (simp add: s3_def s3_put_def precondition_holds_def props_plain_def start_def empty_store_def)
  have p2: "put_object s3 \<lparr>Bucket = bucket props_plain, Key = key props_plain, IfMatch = None,
        IfNoneMatch = Some ''*'', Body = stringify_locked True\<rparr> (backend (start held))
      = (Inl preconditionFailed, held)"
    by (simp add: s3_def s3_put_def precondition_holds_def props_plain_def start_def held_def)
  have p3: "put_object (s3_read_only accessDenied) \<lparr>Bucket = bucket props_plain, Key = key props_plain,
        IfMatch = None, IfNoneMatch = Some ''*'', Body = stringify_locked True\<rparr> (backend (start empty_store))
      = (Inl accessDenied, empty_store)"
    by (simp add: s3_read_only_def start_def)
  have pf: "isPreconditionFailed preconditionFailed" "\<not> isPreconditionFailed accessDenied"
    by (simp_all add: preconditionFailed_def accessDenied_def)
  show ?thesis
    using m g pf
      existence_lock_single_write [OF m g p1, of parse_example]
      existence_lock_single_write [OF m g p2, of parse_example]
      existence_lock_single_write [OF m g p3, of parse_example]
    by (simp add: start_def props_plain_def)
qed

text \<open>
  C8. A pass through the loop in which the predicate is false sends the read and nothing
  else, waits the delay, and leaves to the rest of the loop one attempt fewer of the one
  counter; a read leaves the store as it was.
\<close>

theorem cas_false_predicate_consumes_attempt:
  assumes "get_object cl (GetObjectCommand b k) (backend w) = (Inr out, c)"
    and "cond out = Inr False"
  shows "\<exists>w'. cas_attempt cl cond gen ms b k w = (Continue, w')
      \<and> calls w' = calls w @ [Get (GetObjectCommand b k) (Inr out), Timeout ms]
      \<and> backend w' = c
      \<and> (0 < attempt \<longrightarrow>
           cas_loop cl cond gen ms b k attempt w = cas_loop cl cond gen ms b k (attempt - 1) w')
      \<and> snd (get_object s3 (GetObjectCommand b k) s) = s"
proof -
  have "snd (get_object s3 (GetObjectCommand b k) s) = s"
    by (simp add: s3_def split: option.split)
  moreover have "cas_attempt cl cond gen ms b k w =
     (Continue, w\<lparr>backend := c, calls := calls w @ [Get (GetObjectCommand b k) (Inr out), Timeout ms]\<rparr>)"
    using assms by (simp add: cas_attempt_false)
  ultimately show ?thesis by (simp add: cas_loop_continue)
qed

theorem cas_false_predicate_consumes_attempt_witness:
  "get_object s3 (GetObjectCommand ''b'' ''k'') (backend (start held))
     = (Inr (GetObjectCommandOutput (Some (stringify_locked True)) (Some (etag 0))), held)
   \<and> defaultConditional parse_example (GetObjectCommandOutput (Some (stringify_locked True)) (Some (etag 0)))
     = Inr False
   \<and> (\<exists>w'. cas_attempt s3 (defaultConditional parse_example) defaultGenerateBody 100 ''b'' ''k'' (start held)
          = (Continue, w')
        \<and> calls w' = [Get (GetObjectCommand ''b'' ''k'')
                        (Inr (GetObjectCommandOutput (Some (stringify_locked True)) (Some (etag 0)))),
                      Timeout 100]
        \<and> backend w' = held
        \<and> cas_loop s3 (defaultConditional parse_example) defaultGenerateBody 100 ''b'' ''k'' 2 (start held)
          = cas_loop s3 (defaultConditional parse_example) defaultGenerateBody 100 ''b'' ''k'' 1 w')"
proof -
  have g: "get_object s3 (GetObjectCommand ''b'' ''k'') (backend (start held))
     = (Inr (GetObjectCommandOutput (Some (stringify_locked True)) (Some (etag 0))), held)"
    by (simp add: s3_def start_def held_def)
  have c: "defaultConditional parse_example (GetObjectCommandOutput (Some (stringify_locked True)) (Some (etag 0)))
     = Inr False"
    by (simp add: defaultConditional_def parse_example_def stringify_locked_def)
  show ?thesis
    using g c cas_false_predicate_consumes_attempt
        [where cond = "defaultConditional parse_example" and gen = defaultGenerateBody and ms = 100
           and attempt = 2 and cl = s3 and w = "start held" and s = held, OF g c]
    by (auto simp: start_def)
qed

text \<open>
  C9. \<^verbatim>\<open>defaultConditional\<close> is true on a read result without a body (the text
  \<^verbatim>\<open>{}\<close> is parsed in its place, and is the empty object) and on one whose body is
  parsed to an object without a property \<^verbatim>\<open>locked\<close>.
\<close>

theorem defaultConditional_missing_body:
  assumes "parse ''{}'' = Inr (JObject [])"
  shows "defaultConditional parse (GetObjectCommandOutput None t) = Inr True
     \<and> (parse body = Inr (JObject ps) \<and> map_of ps ''locked'' = None \<longrightarrow>
          defaultConditional parse (GetObjectCommandOutput (Some body) t) = Inr True)"
  using assms by (simp add: defaultConditional_def)

theorem defaultConditional_missing_body_witness:
  "parse_example ''{}'' = Inr (JObject [])
   \<and> map_of [] ''locked'' = (None :: json option)
   \<and> defaultConditional parse_example (GetObjectCommandOutput None (Some (etag 0))) = Inr True
   \<and> defaultConditional parse_example (GetObjectCommandOutput (Some ''{}'') (Some (etag 0))) = Inr True"
proof -
  have p: "parse_example ''{}'' = Inr (JObject [])" by (simp add: parse_example_def)
  show ?thesis
    using p defaultConditional_missing_body [where parse = parse_example and t = "Some (etag 0)"
        and body = "''{}''" and ps = "[]", OF p] by simp
qed

text \<open>
  C10. A compare-and-swap \<^verbatim>\<open>acquireLock\<close> with \<^verbatim>\<open>maxAttempts\<close> at most 0 fails with
  \<^verbatim>\<open>LockNotAcquiredError\<close> at once: nothing is sent to the store and nothing is
  waited for.
\<close>

theorem acquireLock_no_attempts:
  assumes "isCompareAndSwapLock props" and "maxAttempts props = Some n" and "n \<le> 0"
  shows "acquireLock parse cl props w = (Inl lockNotAcquired, w)"
  using assms by (simp add: acquireLock_def attempt_of_def cas_loop_done)

theorem acquireLock_no_attempts_witness:
  "isCompareAndSwapLock (props_cas 0) \<and> maxAttempts (props_cas 0) = Some 0 \<and> (0::int) \<le> 0 \<and>
   acquireLock parse_example s3 (props_cas 0) (start free) = (Inl lockNotAcquired, start free)"
  using acquireLock_no_attempts [of "props_cas 0" 0 parse_example s3 "start free"]
  by (simp add: props_cas_def)

end
